theory Spec2Isabelle
  imports
    Main
    "HOL-Library.Word"
    "HOL-Library.Char_ord"
    "HOL-Library.List_Lexorder"
    "HOL-Library.Product_Lexorder"
    "HOL-Library.Sublist"
    "HOL-Library.Multiset"
begin

section \<open>The vendoring commands of rewrite/command.go\<close>

text \<open>
  The theory embeds \<^verbatim>\<open>rewrite/command.go\<close>: the status enumeration and its printer, the
  list items and their sort order, and the commands \<^verbatim>\<open>CmdInit\<close>, \<^verbatim>\<open>CmdList\<close>, \<^verbatim>\<open>CmdAdd\<close>,
  \<^verbatim>\<open>CmdUpdate\<close> and \<^verbatim>\<open>CmdRemove\<close>. Go strings are byte sequences and are modelled as
  \<^typ>\<open>string\<close>; a byte is an \<^typ>\<open>8 word\<close>; a pointer is an \<^typ>\<open>'a option\<close> with
  \<^term>\<open>None\<close> for nil; a map is an association list whose order stands for the order in
  which one run of a \<^verbatim>\<open>range\<close> loop visits it.
\<close>

subsection \<open>ListStatus (lines 18 to 48)\<close>

type_synonym ListStatus = "8 word"

definition StatusUnknown :: ListStatus where "StatusUnknown = 0"
definition StatusMissing :: ListStatus where "StatusMissing = 1"
definition StatusStd :: ListStatus where "StatusStd = 2"
definition StatusLocal :: ListStatus where "StatusLocal = 3"
definition StatusExternal :: ListStatus where "StatusExternal = 4"
definition StatusInternal :: ListStatus where "StatusInternal = 5"
definition StatusUnused :: ListStatus where "StatusUnused = 6"

lemmas Status_defs =
  StatusUnknown_def StatusMissing_def StatusStd_def StatusLocal_def
  StatusExternal_def StatusInternal_def StatusUnused_def

text \<open>The \<^verbatim>\<open>switch\<close> of \<^verbatim>\<open>ListStatus.String\<close>, with its fall-through \<^verbatim>\<open>return ""\<close>.\<close>

definition ListStatus_String :: "ListStatus \<Rightarrow> string" where
  "ListStatus_String ls =
     (if ls = StatusUnknown then ''?''
      else if ls = StatusMissing then ''m''
      else if ls = StatusStd then ''s''
      else if ls = StatusLocal then ''l''
      else if ls = StatusExternal then ''e''
      else if ls = StatusInternal then ''i''
      else if ls = StatusUnused then ''u''
      else '''')"

subsection \<open>ListItem and ListItemSort (lines 50 to 68)\<close>

record ListItem =
  Status :: ListStatus
  Path :: string

definition ListItem_String :: "ListItem \<Rightarrow> string" where
  "ListItem_String li = ListStatus_String (ListItem.Status li) @ '' '' @ Path li"

text \<open>
  \<^verbatim>\<open>strings.Compare\<close> of the Go library: strings are compared byte by byte, a proper prefix
  being smaller. That is the lexicographic order of \<^typ>\<open>char list\<close> over the byte order of
  \<^typ>\<open>char\<close>.
\<close>

definition strings_Compare :: "string \<Rightarrow> string \<Rightarrow> int" where
  "strings_Compare a b = (if a = b then 0 else if a < b then - 1 else 1)"

text \<open>
  The body of \<^verbatim>\<open>ListItemSort.Less\<close> on the two items it reads, and \<^verbatim>\<open>Less\<close> itself on
  indices. An index outside the slice makes Go panic: \<^term>\<open>None\<close>.
\<close>

definition lessItem :: "ListItem \<Rightarrow> ListItem \<Rightarrow> bool" where
  "lessItem a b =
     (if ListItem.Status a = ListItem.Status b
      then strings_Compare (Path a) (Path b) < 0
      else ListItem.Status a > ListItem.Status b)"

definition Len :: "ListItem list \<Rightarrow> nat" where
  "Len li = length li"

definition Swap :: "ListItem list \<Rightarrow> nat \<Rightarrow> nat \<Rightarrow> ListItem list option" where
  "Swap li i j =
     (if i < length li \<and> j < length li then Some (li[i := li ! j, j := li ! i]) else None)"

definition Less :: "ListItem list \<Rightarrow> nat \<Rightarrow> nat \<Rightarrow> bool option" where
  "Less li i j =
     (if i < length li \<and> j < length li then Some (lessItem (li ! i) (li ! j)) else None)"

text \<open>
  \<^verbatim>\<open>sort.Sort\<close> belongs to the Go library. It rearranges the slice through \<^verbatim>\<open>Swap\<close> only
  and leaves it in an order that \<^verbatim>\<open>sort.IsSorted\<close> accepts: no element is \<^verbatim>\<open>Less\<close> than
  its predecessor. It is modelled by insertion sort, which the library runs on short
  slices; lemma \<open>IsSorted_unique\<close> below shows that for this \<^verbatim>\<open>Less\<close> every sorted
  rearrangement of a slice is the same list, so the library's choice of algorithm cannot
  be observed.
\<close>

fun IsSorted :: "ListItem list \<Rightarrow> bool" where
  "IsSorted [] = True"
| "IsSorted [a] = True"
| "IsSorted (a # b # rest) = (\<not> lessItem b a \<and> IsSorted (b # rest))"

fun insertItem :: "ListItem \<Rightarrow> ListItem list \<Rightarrow> ListItem list" where
  "insertItem x [] = [x]"
| "insertItem x (y # ys) = (if lessItem x y then x # y # ys else y # insertItem x ys)"

definition sort_Sort :: "ListItem list \<Rightarrow> ListItem list" where
  "sort_Sort li = foldr insertItem li []"

text \<open>The sort key under which \<^const>\<open>lessItem\<close> is the standard lexicographic order.\<close>

definition sortKey :: "ListItem \<Rightarrow> nat \<times> string" where
  "sortKey a = (255 - unat (ListItem.Status a), Path a)"

subsection \<open>Functions of the Go library used by the commands\<close>

text \<open>
  \<^verbatim>\<open>strings.Index\<close> is the position of the first occurrence of the separator, and
  \<^verbatim>\<open>strings.Split\<close> cuts at each occurrence found from the left, continuing after it.
  With an empty separator the library splits after every UTF-8 sequence; \<open>explode\<close> does
  so for single-byte characters, and no command reaches it.
\<close>

fun strings_Index :: "string \<Rightarrow> string \<Rightarrow> nat option" where
  "strings_Index [] sep = (if sep = [] then Some 0 else None)"
| "strings_Index (c # cs) sep =
     (if prefix sep (c # cs) then Some 0 else map_option Suc (strings_Index cs sep))"

definition explode :: "string \<Rightarrow> string list" where
  "explode s = map (\<lambda>c. [c]) s"

function strings_Split :: "string \<Rightarrow> string \<Rightarrow> string list" where
  "strings_Split s sep =
     (if sep = [] then explode s
      else case strings_Index s sep of
             None \<Rightarrow> [s]
           | Some m \<Rightarrow> take m s # strings_Split (drop (m + length sep) s) sep)"
  by pat_completeness auto
termination
proof (relation "measure (\<lambda>(s, sep). length s)")
  show "wf (measure (\<lambda>(s, sep). length s))" by simp
next
  fix s sep :: string and m :: nat
  assume sep: "sep \<noteq> []" and idx: "strings_Index s sep = Some m"
  have "m + length sep \<le> length s" using idx
  proof (induction s arbitrary: m)
    case Nil
    then show ?case using sep by simp
  next
    case (Cons c cs)
    show ?case
    proof (cases "prefix sep (c # cs)")
      case True
      then show ?thesis using Cons.prems prefix_length_le [OF True] by simp
    next
      case False
      then obtain k where "strings_Index cs sep = Some k" "m = Suc k"
        using Cons.prems by auto
      then show ?thesis using Cons.IH by simp
    qed
  qed
  moreover have "0 < m + length sep" using sep by (cases sep) simp_all
  ultimately have "length (drop (m + length sep) s) < length s"
    unfolding length_drop by arith
  then show "((drop (m + length sep) s, sep), (s, sep)) \<in> measure (\<lambda>(s, sep). length s)"
    by simp
qed

declare strings_Split.simps [simp del]

fun strings_Join :: "string list \<Rightarrow> string \<Rightarrow> string" where
  "strings_Join [] sep = []"
| "strings_Join [a] sep = a"
| "strings_Join (a # b # rest) sep = a @ sep @ strings_Join (b # rest) sep"

text \<open>
  \<^verbatim>\<open>path.Clean\<close>, following the library's loop: \<open>path\<close> is the input still to read, \<open>out\<close>
  the bytes written so far, \<open>dotdot\<close> the length of \<open>out\<close> below which a \<^verbatim>\<open>..\<close> element
  must not remove anything. \<open>backtrack\<close> is the inner loop that drops the last element
  written.
\<close>

function backtrack :: "string \<Rightarrow> nat \<Rightarrow> nat \<Rightarrow> nat" where
  "backtrack out dotdot w =
     (if w > dotdot \<and> out ! w \<noteq> CHR ''/'' then backtrack out dotdot (w - 1) else w)"
  by pat_completeness auto
termination
  by (relation "measure (\<lambda>(out, dotdot, w). w)") auto

declare backtrack.simps [simp del]

function Clean_loop :: "bool \<Rightarrow> string \<Rightarrow> string \<Rightarrow> nat \<Rightarrow> string" where
  "Clean_loop rooted [] out dotdot = out"
| "Clean_loop rooted (c # cs) out dotdot =
     (if c = CHR ''/'' then Clean_loop rooted cs out dotdot
      else if c = CHR ''.'' \<and> (cs = [] \<or> hd cs = CHR ''/'') then Clean_loop rooted cs out dotdot
      else if c = CHR ''.'' \<and> hd cs = CHR ''.'' \<and> (tl cs = [] \<or> hd (tl cs) = CHR ''/'') then
        (if length out > dotdot
         then Clean_loop rooted (tl cs) (take (backtrack out dotdot (length out - 1)) out) dotdot
         else if \<not> rooted
         then Clean_loop rooted (tl cs) ((if out \<noteq> [] then out @ ''/'' else out) @ ''..'')
                (length ((if out \<noteq> [] then out @ ''/'' else out) @ ''..''))
         else Clean_loop rooted (tl cs) out dotdot)
      else Clean_loop rooted (dropWhile (\<lambda>x. x \<noteq> CHR ''/'') cs)
             ((if rooted \<and> length out \<noteq> 1 \<or> \<not> rooted \<and> length out \<noteq> 0
               then out @ ''/'' else out)
                @ c # takeWhile (\<lambda>x. x \<noteq> CHR ''/'') cs)
             dotdot)"
  by pat_completeness auto
termination
  by (relation "measure (\<lambda>(rooted, path, out, dotdot). length path)")
     (simp_all add: less_Suc_eq_le length_dropWhile_le)

definition path_Clean :: "string \<Rightarrow> string" where
  "path_Clean path =
     (if path = [] then ''.''
      else let rooted = (hd path = CHR ''/'');
               out = Clean_loop rooted (if rooted then tl path else path)
                       (if rooted then ''/'' else []) (if rooted then 1 else 0)
           in if out = [] then ''.'' else out)"

text \<open>
  \<^verbatim>\<open>path.Join\<close>: the elements from the first non-empty one on, joined by slashes and
  cleaned; the empty string when all are empty.
\<close>

fun path_Join :: "string list \<Rightarrow> string" where
  "path_Join [] = []"
| "path_Join (e # rest) =
     (if e \<noteq> [] then path_Clean (strings_Join (e # rest) ''/'') else path_Join rest)"

text \<open>
  \<^verbatim>\<open>filepath.Separator\<close> and \<^verbatim>\<open>filepath.Join\<close> depend on the operating system. The
  development fixes a system whose separator is the slash, where \<^verbatim>\<open>filepath.Join\<close> runs
  the algorithm of \<^verbatim>\<open>path.Join\<close>.
\<close>

definition filepath_Separator :: char where
  "filepath_Separator = CHR ''/''"

definition filepath_Join :: "string list \<Rightarrow> string" where
  "filepath_Join elem = path_Join elem"

text \<open>
  Slash-separated paths in normal form: every element is non-empty, holds no slash and
  is neither \<^verbatim>\<open>.\<close> nor \<^verbatim>\<open>..\<close>. On the join of such elements \<^verbatim>\<open>path.Clean\<close> changes
  nothing.
\<close>

definition cleanElem :: "string \<Rightarrow> bool" where
  "cleanElem e \<longleftrightarrow> e \<noteq> [] \<and> CHR ''/'' \<notin> set e \<and> e \<noteq> ''.'' \<and> e \<noteq> ''..''"

definition cleanPath :: "string list \<Rightarrow> bool" where
  "cleanPath es \<longleftrightarrow> es \<noteq> [] \<and> (\<forall>e\<in>set es. cleanElem e)"

subsection \<open>Constants and errors (lines 70 to 96)\<close>

definition vendorFilename :: string where "vendorFilename = ''vendor.json''"
definition internalFolder :: string where "internalFolder = ''internal''"
definition toolName :: string where "toolName = ''github.com/kardianos/vendor''"

definition internalVendor :: string where
  "internalVendor = filepath_Join [internalFolder, vendorFilename]"

definition internalFolderSlash :: string where
  "internalFolderSlash = [filepath_Separator] @ internalFolder @ [filepath_Separator]"

text \<open>
  The error values of the file, and two kinds of error that come from outside it:
  \<open>ErrNotExist\<close> is an error of the operating system for which \<^verbatim>\<open>os.IsNotExist\<close> holds,
  \<open>ErrIO\<close> any other error of the operating system or of a function called.
\<close>

datatype error =
    ErrVendorFileExists
  | ErrMissingVendorFile
  | ErrMissingGOROOT
  | ErrMissingGOPATH
  | ErrVendorExists
  | ErrLocalPackage
  | ErrNotInGOPATH string
  | ErrNotExist string
  | ErrIO string

fun os_IsNotExist :: "error option \<Rightarrow> bool" where
  "os_IsNotExist (Some (ErrNotExist p)) = True"
| "os_IsNotExist e = False"

text \<open>
  A run-time panic is not an error value: a command either returns (its result, or an
  error) or panics.
\<close>

datatype panic = NilPointerDereference string | IndexOutOfRange

datatype 'a outcome = Ok 'a | Failed error | Panicked panic

subsection \<open>Data of the package that the commands read\<close>

text \<open>
  The types \<^verbatim>\<open>VendorFile\<close>, \<^verbatim>\<open>VendorPackage\<close>, \<^verbatim>\<open>Package\<close>, \<^verbatim>\<open>Context\<close> and \<^verbatim>\<open>Rule\<close> are
  declared in other files of the package. The records hold the fields that command.go
  reads or writes. \<^verbatim>\<open>ctx.VendorFile\<close> is a pointer and \<^verbatim>\<open>ctx.Package\<close> maps an import path
  to a pointer to a package.
\<close>

record VendorPackage =
  Vendor :: string
  Local :: string

record VendorFile =
  Tool :: string
  Package :: "VendorPackage list"

record Package =
  ImportPath :: string
  Dir :: string
  Status :: ListStatus

record Rule =
  From :: string
  To :: string

record Context =
  RootDir :: string
  RootGopath :: string
  RootImportPath :: string
  VendorFile :: "VendorFile option"
  Package :: "(string \<times> Package option) list"
  fileImports :: "(string \<times> string list) list"

text \<open>Indexing a Go map: the zero value (nil) when the key is absent.\<close>

definition lookupPackage :: "(string \<times> Package option) list \<Rightarrow> string \<Rightarrow> Package option" where
  "lookupPackage m k = (case map_of m k of None \<Rightarrow> None | Some p \<Rightarrow> p)"

definition lookupFiles :: "(string \<times> string list) list \<Rightarrow> string \<Rightarrow> string list" where
  "lookupFiles m k = (case map_of m k of None \<Rightarrow> [] | Some fs \<Rightarrow> fs)"

subsection \<open>The file system and the functions called\<close>

text \<open>
  The commands work on the file system, of an abstract type \<open>'fs\<close>, through functions
  of the operating system and of other files of the package. These are parameters of
  the model, collected in a record: functions that look at the file system take it and
  return a result, functions that change it also return the new one, with
  \<^term>\<open>None\<close> for a nil error.
\<close>

record 'fs env =
  os_Getwd :: "'fs \<Rightarrow> error + string"
  os_Stat :: "string \<Rightarrow> 'fs \<Rightarrow> error option"
  os_MkdirAll :: "string \<Rightarrow> 'fs \<Rightarrow> error option \<times> 'fs"
  writeVendorFile :: "string \<Rightarrow> VendorFile \<Rightarrow> 'fs \<Rightarrow> error option \<times> 'fs"
  NewContextWD :: "'fs \<Rightarrow> error + Context"
  LoadPackage :: "Context \<Rightarrow> string list \<Rightarrow> 'fs \<Rightarrow> error + Context"
  CopyPackage :: "string \<Rightarrow> string \<Rightarrow> 'fs \<Rightarrow> error option \<times> 'fs"
  RewriteFiles :: "string list \<Rightarrow> Rule list \<Rightarrow> 'fs \<Rightarrow> error option \<times> 'fs"
  slashToImportPath :: "string \<Rightarrow> string"
  slashToFilepath :: "string \<Rightarrow> string"

text \<open>
  The state of a run is the file system together with the trace of the calls made so far
  that may change it, each with its arguments and the error it returned, in the order of
  the calls.
\<close>

datatype event =
    EvMkdirAll string "error option"
  | EvWriteVendorFile string VendorFile "error option"
  | EvCopyPackage string string "error option"
  | EvRewriteFiles "string list" "Rule list" "error option"

record 'fs state =
  files :: 'fs
  trace :: "event list"

fun isWriteVendorFile :: "event \<Rightarrow> bool" where
  "isWriteVendorFile (EvWriteVendorFile dir vf err) = True"
| "isWriteVendorFile ev = False"


definition call_writeVendorFile ::
  "'fs env \<Rightarrow> string \<Rightarrow> VendorFile \<Rightarrow> 'fs state \<Rightarrow> error option \<times> 'fs state" where
  "call_writeVendorFile env dir vf st =
     (let (err, fs) = writeVendorFile env dir vf (files st)
      in (err, \<lparr>files = fs, trace = trace st @ [EvWriteVendorFile dir vf err]\<rparr>))"

definition call_CopyPackage ::
  "'fs env \<Rightarrow> string \<Rightarrow> string \<Rightarrow> 'fs state \<Rightarrow> error option \<times> 'fs state" where
  "call_CopyPackage env src dst st =
     (let (err, fs) = CopyPackage env src dst (files st)
      in (err, \<lparr>files = fs, trace = trace st @ [EvCopyPackage src dst err]\<rparr>))"

definition call_RewriteFiles ::
  "'fs env \<Rightarrow> string list \<Rightarrow> Rule list \<Rightarrow> 'fs state \<Rightarrow> error option \<times> 'fs state" where
  "call_RewriteFiles env fls rules st =
     (let (err, fs) = RewriteFiles env fls rules (files st)
      in (err, \<lparr>files = fs, trace = trace st @ [EvRewriteFiles fls rules err]\<rparr>))"

subsection \<open>CmdInit (lines 98 to 121)\<close>


subsection \<open>CmdList (lines 123 to 155)\<close>

text \<open>
  The \<^verbatim>\<open>range\<close> loop over \<^verbatim>\<open>ctx.Package\<close>: each entry is projected to a list item and
  appended; reading \<^verbatim>\<open>pkg.Status\<close> through a nil pointer panics.
\<close>

fun appendItems :: "(string \<times> Package option) list \<Rightarrow> ListItem list \<Rightarrow> ListItem list outcome" where
  "appendItems [] li = Ok li"
| "appendItems ((k, None) # rest) li = Panicked (NilPointerDereference ''pkg.Status'')"
| "appendItems ((k, Some pkg) # rest) li =
     appendItems rest (li @ [\<lparr>ListItem.Status = Package.Status pkg, Path = ImportPath pkg\<rparr>])"

text \<open>The item that the loop makes of a package.\<close>

definition itemOf :: "Package \<Rightarrow> ListItem" where
  "itemOf pkg = \<lparr>ListItem.Status = Package.Status pkg, Path = ImportPath pkg\<rparr>"


subsection \<open>CmdAdd (lines 164 to 227)\<close>

text \<open>
  Lines 187 to 226, reached when the status is \<^verbatim>\<open>StatusExternal\<close>: the local import path,
  the entry appended to the vendor file, which is written at once, then the copy, the
  second load and the rewrite. \<^verbatim>\<open>ss[len(ss)-1]\<close> panics on an empty slice. The append
  changes the vendor file that \<^verbatim>\<open>ctx\<close> points to, so the second load receives the
  context \<open>ctx'\<close> with the new entry; its other fields are those of \<open>ctx\<close>.
\<close>

definition CmdAdd_vendor ::
  "'fs env \<Rightarrow> Context \<Rightarrow> Package \<Rightarrow> string \<Rightarrow> 'fs state \<Rightarrow> unit outcome \<times> 'fs state" where
  "CmdAdd_vendor env ctx pkg importPath st =
     (let ss = strings_Split importPath internalFolderSlash in
      if ss = [] then (Panicked IndexOutOfRange, st)
      else
        let localImportPath = path_Join [RootImportPath ctx, internalFolder, last ss] in
        (case VendorFile ctx of
           None \<Rightarrow> (Panicked (NilPointerDereference ''ctx.VendorFile.Package''), st)
         | Some vf \<Rightarrow>
             let vf' = vf\<lparr>VendorFile.Package :=
                           VendorFile.Package vf @ [\<lparr>Vendor = importPath, Local = localImportPath\<rparr>]\<rparr>;
                 ctx' = ctx\<lparr>VendorFile := Some vf'\<rparr>
             in
             (case call_writeVendorFile env (RootDir ctx) vf' st of
                (Some err, st1) \<Rightarrow> (Failed err, st1)
              | (None, st1) \<Rightarrow>
                  (case call_CopyPackage env (Dir pkg)
                          (filepath_Join [RootGopath ctx, slashToFilepath env localImportPath]) st1 of
                     (Some err, st2) \<Rightarrow> (Failed err, st2)
                   | (None, st2) \<Rightarrow>
                       (case LoadPackage env ctx' [importPath] (files st2) of
                          Inl err \<Rightarrow> (Failed err, st2)
                        | Inr ctx'' \<Rightarrow>
                            let fls = lookupFiles (fileImports ctx'') importPath in
                            (case call_RewriteFiles env fls
                                    [\<lparr>From = importPath, To = localImportPath\<rparr>] st2 of
                               (Some err, st3) \<Rightarrow> (Failed err, st3)
                             | (None, st3) \<Rightarrow> (Ok (), st3)))))))"

text \<open>
  Lines 164 to 185: the context, the first load and the status check. \<^verbatim>\<open>pkg\<close> is the
  pointer found in the map, nil when there is none, and \<^verbatim>\<open>pkg.Status\<close> reads through it
  without a test.
\<close>

definition CmdAdd :: "'fs env \<Rightarrow> string \<Rightarrow> 'fs state \<Rightarrow> unit outcome \<times> 'fs state" where
  "CmdAdd env importPath0 st =
     (let importPath = slashToImportPath env importPath0 in
      case NewContextWD env (files st) of
        Inl err \<Rightarrow> (Failed err, st)
      | Inr ctx0 \<Rightarrow>
          (case LoadPackage env ctx0 [importPath] (files st) of
             Inl err \<Rightarrow> (Failed err, st)
           | Inr ctx \<Rightarrow>
               (case lookupPackage (Context.Package ctx) importPath of
                  None \<Rightarrow> (Panicked (NilPointerDereference ''pkg.Status''), st)
                | Some pkg \<Rightarrow>
                    if Package.Status pkg \<noteq> StatusExternal then
                      (if Package.Status pkg = StatusInternal then (Failed ErrVendorExists, st)
                       else if Package.Status pkg = StatusLocal then (Failed ErrLocalPackage, st)
                       else (Failed (ErrNotInGOPATH importPath), st))
                    else CmdAdd_vendor env ctx pkg importPath st)))"

subsection \<open>CmdUpdate and CmdRemove (lines 228 to 233)\<close>

definition CmdUpdate :: "string \<Rightarrow> 'fs state \<Rightarrow> unit outcome \<times> 'fs state" where
  "CmdUpdate importPath st = (Ok (), st)"

definition CmdRemove :: "string \<Rightarrow> 'fs state \<Rightarrow> unit outcome \<times> 'fs state" where
  "CmdRemove importPath st = (Ok (), st)"

subsection \<open>A small project on which the commands are run\<close>

text \<open>
  A file system is here the list of the paths that exist. The project \<^verbatim>\<open>mypkg\<close> lives
  under \<^verbatim>\<open>/go/src\<close>; loading finds the packages of \<open>demoPackages\<close> and one file that
  imports \<^verbatim>\<open>example.com/foo\<close>.
\<close>

definition demoPackages :: "(string \<times> Package option) list" where
  "demoPackages =
     [(''fmt'', Some \<lparr>ImportPath = ''fmt'', Dir = ''/goroot/src/fmt'', Status = StatusStd\<rparr>),
      (''example.com/foo'',
         Some \<lparr>ImportPath = ''example.com/foo'', Dir = ''/go/src/example.com/foo'',
               Status = StatusExternal\<rparr>),
      (''mypkg/util'',
         Some \<lparr>ImportPath = ''mypkg/util'', Dir = ''/go/src/mypkg/util'', Status = StatusLocal\<rparr>),
      (''mypkg/internal/bar'',
         Some \<lparr>ImportPath = ''mypkg/internal/bar'', Dir = ''/go/src/mypkg/internal/bar'',
               Status = StatusInternal\<rparr>),
      (''github.com/kardianos/osext'',
         Some \<lparr>ImportPath = ''github.com/kardianos/osext'',
               Dir = ''/go/src/github.com/kardianos/osext'', Status = StatusExternal\<rparr>),
      (''yours/internal/yourpkg'',
         Some \<lparr>ImportPath = ''yours/internal/yourpkg'',
               Dir = ''/go/src/yours/internal/yourpkg'', Status = StatusExternal\<rparr>),
      (''example.com/gone'',
         Some \<lparr>ImportPath = ''example.com/gone'', Dir = [], Status = StatusMissing\<rparr>)]"

definition demoContext :: Context where
  "demoContext =
     \<lparr>RootDir = ''/go/src/mypkg'', RootGopath = ''/go/src'', RootImportPath = ''mypkg'',
      VendorFile = Some \<lparr>Tool = toolName,
                          Package = [\<lparr>Vendor = ''example.com/bar'', Local = ''mypkg/internal/bar''\<rparr>]\<rparr>,
      Package = [], fileImports = []\<rparr>"

definition demoEnv :: "string list env" where
  "demoEnv =
     \<lparr>os_Getwd = (\<lambda>fs. Inr ''/go/src/mypkg''),
      os_Stat = (\<lambda>p fs. if p \<in> set fs then None else Some (ErrNotExist p)),
      os_MkdirAll = (\<lambda>dir fs. (None, dir # fs)),
      writeVendorFile = (\<lambda>dir vf fs. (None, filepath_Join [dir, internalVendor] # fs)),
      NewContextWD = (\<lambda>fs. Inr demoContext),
      LoadPackage = (\<lambda>ctx focus fs.
         Inr (ctx\<lparr>Context.Package := demoPackages,
                  fileImports := [(''example.com/foo'', [''/go/src/mypkg/main.go''])]\<rparr>)),
      CopyPackage = (\<lambda>src dst fs. (None, dst # fs)),
      RewriteFiles = (\<lambda>fls rules fs. (None, fs)),
      slashToImportPath = (\<lambda>p. p),
      slashToFilepath = (\<lambda>p. p)\<rparr>"

definition demoState :: "string list state" where
  "demoState = \<lparr>files = [''/go/src/mypkg'', ''/go/src/mypkg/main.go''], trace = []\<rparr>"

text \<open>Variants: a directory that cannot be read, a copy that fails, a load that finds nothing.\<close>

definition demoEnvStatFails :: "string list env" where
  "demoEnvStatFails = demoEnv\<lparr>os_Stat := (\<lambda>p fs. Some (ErrIO ''permission denied''))\<rparr>"

definition demoEnvCopyFails :: "string list env" where
  "demoEnvCopyFails = demoEnv\<lparr>CopyPackage := (\<lambda>src dst fs. (Some (ErrIO ''copy failed''), fs))\<rparr>"

definition demoEnvEmptyLoad :: "string list env" where
  "demoEnvEmptyLoad =
     demoEnv\<lparr>LoadPackage := (\<lambda>ctx focus fs. Inr (ctx\<lparr>Context.Package := []\<rparr>))\<rparr>"

section \<open>Properties\<close>

subsection \<open>The order of list items and sorting\<close>

lemma unat_ListStatus_le: "unat (s :: ListStatus) \<le> 255"
proof -
  have "unat s < 2 ^ LENGTH(8)" by (rule unsigned_less)
  then show ?thesis by simp
qed

lemma lessItem_sortKey: "lessItem a b \<longleftrightarrow> sortKey a < sortKey b"
proof (cases "ListItem.Status a = ListItem.Status b")
  case True
  then show ?thesis
    by (auto simp: lessItem_def sortKey_def strings_Compare_def)
next
  case False
  have ne: "unat (ListItem.Status a) \<noteq> unat (ListItem.Status b)"
    using False by (simp add: word_unat_eq_iff)
  have "ListItem.Status a > ListItem.Status b
          \<longleftrightarrow> 255 - unat (ListItem.Status a) < 255 - unat (ListItem.Status b)"
    using unat_ListStatus_le [of "ListItem.Status a"] unat_ListStatus_le [of "ListItem.Status b"]
    by (auto simp: word_less_nat_alt)
  moreover have "255 - unat (ListItem.Status a) \<noteq> 255 - unat (ListItem.Status b)"
    using ne unat_ListStatus_le [of "ListItem.Status a"] unat_ListStatus_le [of "ListItem.Status b"]
    by arith
  ultimately show ?thesis
    using False by (auto simp: lessItem_def sortKey_def)
qed

lemma sortKey_inj: "sortKey a = sortKey b \<Longrightarrow> a = (b :: ListItem)"
proof -
  assume eq: "sortKey a = sortKey b"
  then have "unat (ListItem.Status a) = unat (ListItem.Status b)"
    using unat_ListStatus_le [of "ListItem.Status a"] unat_ListStatus_le [of "ListItem.Status b"]
    by (simp add: sortKey_def) arith
  then have "ListItem.Status a = ListItem.Status b" by (simp add: word_unat_eq_iff)
  moreover have "Path a = Path b" using eq by (simp add: sortKey_def)
  ultimately show ?thesis by simp
qed

lemma IsSorted_sortKey: "IsSorted li \<longleftrightarrow> sorted (map sortKey li)"
proof (induction li rule: IsSorted.induct)
  case (3 a b rest)
  have "sorted (map sortKey (a # b # rest))
          \<longleftrightarrow> sortKey a \<le> sortKey b \<and> sorted (map sortKey (b # rest))"
    by (simp only: list.map sorted2)
  moreover have "\<not> lessItem b a \<longleftrightarrow> sortKey a \<le> sortKey b"
    by (simp add: lessItem_sortKey not_less)
  ultimately show ?case
    using 3 by (simp only: IsSorted.simps)
qed simp_all

lemma mset_insertItem: "mset (insertItem x ys) = add_mset x (mset ys)"
  by (induction ys) simp_all

lemma mset_sort_Sort: "mset (sort_Sort li) = mset li"
  by (induction li) (simp_all add: sort_Sort_def mset_insertItem)

lemma set_insertItem: "set (insertItem x ys) = insert x (set ys)"
  by (induction ys) auto

lemma sorted_insertItem:
  "sorted (map sortKey ys) \<Longrightarrow> sorted (map sortKey (insertItem x ys))"
  by (induction ys) (auto simp: set_insertItem lessItem_sortKey)

lemma IsSorted_sort_Sort: "IsSorted (sort_Sort li)"
  unfolding IsSorted_sortKey
  by (induction li) (simp_all add: sort_Sort_def sorted_insertItem)

lemma IsSorted_unique:
  assumes "IsSorted xs" and "IsSorted ys" and "mset xs = mset ys"
  shows "xs = ys"
proof -
  have "mset (map sortKey xs) = mset (map sortKey ys)"
    using assms(3) by simp
  moreover have "sorted (map sortKey xs)" and "sorted (map sortKey ys)"
    using assms(1,2) by (simp_all add: IsSorted_sortKey)
  ultimately have "map sortKey xs = map sortKey ys"
    by (metis properties_for_sort)
  moreover have "inj sortKey"
    by (rule injI) (rule sortKey_inj)
  ultimately show ?thesis
    by (simp only: inj_map_eq_map)
qed


lemma lessItem_asym: "lessItem a b \<Longrightarrow> \<not> lessItem b a"
  by (simp add: lessItem_sortKey)

lemma lessItem_trans: "lessItem a b \<Longrightarrow> lessItem b c \<Longrightarrow> lessItem a c"
  unfolding lessItem_sortKey by (rule less_trans)

lemma lessItem_total:
  "(ListItem.Status a, Path a) \<noteq> (ListItem.Status b, Path b) \<Longrightarrow> lessItem a b \<or> lessItem b a"
proof -
  assume "(ListItem.Status a, Path a) \<noteq> (ListItem.Status b, Path b)"
  then have "a \<noteq> b" by auto
  then have "sortKey a \<noteq> sortKey b" using sortKey_inj by blast
  then show ?thesis unfolding lessItem_sortKey by (rule neqE) simp_all
qed

lemma sort_Sort_mset_cong: "mset ys = mset li \<Longrightarrow> sort_Sort ys = sort_Sort li"
  by (rule IsSorted_unique) (simp_all add: IsSorted_sort_Sort mset_sort_Sort)

text \<open>
  Claim C9. On the indices of a slice, \<^verbatim>\<open>Less\<close> is a strict total order of the items
  with distinct status and path: \<^verbatim>\<open>Less(i, j)\<close> and \<^verbatim>\<open>Less(j, i)\<close> never both hold, exactly
  one of them holds when the two pairs differ, and \<^verbatim>\<open>Less\<close> is transitive. Hence the sorted
  list depends only on the multiset of the items: two slices with the same items sort to
  the same list, and every rearrangement that \<^verbatim>\<open>sort.IsSorted\<close> accepts is that list.
\<close>
theorem Less_strict_total_order:
  "(\<forall>i<length li. \<forall>j<length li.
      \<not> (Less li i j = Some True \<and> Less li j i = Some True)
      \<and> ((ListItem.Status (li ! i), Path (li ! i)) \<noteq> (ListItem.Status (li ! j), Path (li ! j))
           \<longrightarrow> (Less li i j = Some True) \<noteq> (Less li j i = Some True))
      \<and> (\<forall>k<length li. Less li i j = Some True \<and> Less li j k = Some True
                         \<longrightarrow> Less li i k = Some True))
   \<and> (\<forall>ys. mset ys = mset li \<longrightarrow> sort_Sort ys = sort_Sort li)
   \<and> (\<forall>ys. mset ys = mset li \<and> IsSorted ys \<longrightarrow> ys = sort_Sort li)"
proof (intro conjI allI impI)
  fix i j assume "i < length li" "j < length li"
  then show "\<not> (Less li i j = Some True \<and> Less li j i = Some True)"
    using lessItem_asym [of "li ! i" "li ! j"] by (auto simp: Less_def)
next
  fix i j
  assume "i < length li" "j < length li"
    and "(ListItem.Status (li ! i), Path (li ! i)) \<noteq> (ListItem.Status (li ! j), Path (li ! j))"
  then show "(Less li i j = Some True) \<noteq> (Less li j i = Some True)"
    using lessItem_asym [of "li ! i" "li ! j"] lessItem_total [of "li ! i" "li ! j"]
    by (auto simp: Less_def)
next
  fix i j k
  assume "i < length li" "j < length li" "k < length li"
    and "Less li i j = Some True \<and> Less li j k = Some True"
  then show "Less li i k = Some True"
    using lessItem_trans [of "li ! i" "li ! j" "li ! k"] by (auto simp: Less_def)
next
  fix ys assume "mset ys = mset li"
  then show "sort_Sort ys = sort_Sort li" by (rule sort_Sort_mset_cong)
next
  fix ys assume "mset ys = mset li \<and> IsSorted ys"
  then show "ys = sort_Sort li"
    by (intro IsSorted_unique) (simp_all add: IsSorted_sort_Sort mset_sort_Sort)
qed

theorem Less_strict_total_order_witness:
  "Less [\<lparr>ListItem.Status = StatusLocal, Path = ''b''\<rparr>, \<lparr>ListItem.Status = StatusUnused, Path = ''a''\<rparr>] 1 0
     = Some True
   \<and> Less [\<lparr>ListItem.Status = StatusLocal, Path = ''b''\<rparr>, \<lparr>ListItem.Status = StatusUnused, Path = ''a''\<rparr>] 0 1
     \<noteq> Some True
   \<and> sort_Sort [\<lparr>ListItem.Status = StatusUnused, Path = ''a''\<rparr>, \<lparr>ListItem.Status = StatusLocal, Path = ''b''\<rparr>]
     = sort_Sort [\<lparr>ListItem.Status = StatusLocal, Path = ''b''\<rparr>, \<lparr>ListItem.Status = StatusUnused, Path = ''a''\<rparr>]"
proof -
  define x where "x = \<lparr>ListItem.Status = StatusLocal, Path = ''b''\<rparr>"
  define y where "y = \<lparr>ListItem.Status = StatusUnused, Path = ''a''\<rparr>"
  note t = Less_strict_total_order [of "[x, y]"]
  have one: "Less [x, y] 1 0 = Some True"
    by (simp add: Less_def lessItem_def Status_defs x_def y_def)
  have len: "0 < length [x, y]" "1 < length [x, y]" by simp_all
  have "\<not> (Less [x, y] 0 1 = Some True \<and> Less [x, y] 1 0 = Some True)"
    using t [THEN conjunct1, rule_format, OF len, THEN conjunct1] .
  then have two: "Less [x, y] 0 1 \<noteq> Some True" using one by blast
  have "mset [y, x] = mset [x, y]" by simp
  then have "sort_Sort [y, x] = sort_Sort [x, y]"
    using t [THEN conjunct2, THEN conjunct1, rule_format, of "[y, x]"] by blast
  then show ?thesis using one two unfolding x_def y_def by blast
qed

subsection \<open>The printer of the status\<close>

text \<open>
  Claim C8. \<^verbatim>\<open>ListStatus.String\<close> has a value at every byte: the seven constants are the
  bytes 0 to 6 and print as \<^verbatim>\<open>?\<close>, \<^verbatim>\<open>m\<close>, \<^verbatim>\<open>s\<close>, \<^verbatim>\<open>l\<close>, \<^verbatim>\<open>e\<close>, \<^verbatim>\<open>i\<close>, \<^verbatim>\<open>u\<close>; every other byte
  prints as the empty string, so that \<^verbatim>\<open>ListItem.String\<close> of an item with such a status is a
  space followed by the path.
\<close>
theorem ListStatus_String_total:
  "map unat [StatusUnknown, StatusMissing, StatusStd, StatusLocal, StatusExternal,
             StatusInternal, StatusUnused] = [0, 1, 2, 3, 4, 5, 6]
   \<and> map ListStatus_String [StatusUnknown, StatusMissing, StatusStd, StatusLocal,
             StatusExternal, StatusInternal, StatusUnused]
       = [''?'', ''m'', ''s'', ''l'', ''e'', ''i'', ''u'']
   \<and> (\<forall>ls. 6 < unat ls \<longrightarrow>
          ListStatus_String ls = [] \<and>
          (\<forall>p. ListItem_String \<lparr>ListItem.Status = ls, Path = p\<rparr> = '' '' @ p))"
  by (auto simp: ListStatus_String_def ListItem_String_def Status_defs)

theorem ListStatus_String_total_witness:
  "6 < unat (200 :: ListStatus) \<and> ListStatus_String 200 = []
   \<and> ListItem_String \<lparr>ListItem.Status = 200, Path = ''a/b''\<rparr> = '' a/b''"
  using ListStatus_String_total by simp

subsection \<open>CmdUpdate and CmdRemove\<close>

text \<open>
  Claim C7. For every import path, \<^verbatim>\<open>CmdUpdate\<close> and \<^verbatim>\<open>CmdRemove\<close> return no error and
  leave the state as it is: the file system is unchanged and no call is added to the
  trace.
\<close>
theorem CmdUpdate_CmdRemove_noop:
  "CmdUpdate importPath st = (Ok (), st) \<and> CmdRemove importPath st = (Ok (), st)"
  by (simp add: CmdUpdate_def CmdRemove_def)

subsection \<open>CmdAdd: the steps after the status check\<close>

lemma internalFolderSlash_eq: "internalFolderSlash = ''/internal/''"
  by (simp add: internalFolderSlash_def internalFolder_def filepath_Separator_def)

lemma strings_Split_not_Nil: "sep \<noteq> [] \<Longrightarrow> strings_Split s sep \<noteq> []"
  by (subst strings_Split.simps) (simp split: option.splits)

lemma CmdAdd_vendor_run [consumes 1, case_names write_fails copy_fails load_fails rewrite_fails success]:
  fixes env :: "'fs env" and st :: "'fs state"
  assumes vf: "VendorFile ctx = Some vf"
    and write_fails: "\<And>l vf' err fs1.
      \<lbrakk>l = path_Join [RootImportPath ctx, internalFolder, last (strings_Split p internalFolderSlash)];
       vf' = vf\<lparr>VendorFile.Package := VendorFile.Package vf @ [\<lparr>Vendor = p, Local = l\<rparr>]\<rparr>;
       writeVendorFile env (RootDir ctx) vf' (files st) = (Some err, fs1);
       CmdAdd_vendor env ctx pkg p st =
         (Failed err, \<lparr>files = fs1,
            trace = trace st @ [EvWriteVendorFile (RootDir ctx) vf' (Some err)]\<rparr>)\<rbrakk> \<Longrightarrow> thesis"
    and copy_fails: "\<And>l vf' dst err fs1 fs2.
      \<lbrakk>l = path_Join [RootImportPath ctx, internalFolder, last (strings_Split p internalFolderSlash)];
       vf' = vf\<lparr>VendorFile.Package := VendorFile.Package vf @ [\<lparr>Vendor = p, Local = l\<rparr>]\<rparr>;
       dst = filepath_Join [RootGopath ctx, slashToFilepath env l];
       writeVendorFile env (RootDir ctx) vf' (files st) = (None, fs1);
       CopyPackage env (Dir pkg) dst fs1 = (Some err, fs2);
       CmdAdd_vendor env ctx pkg p st =
         (Failed err, \<lparr>files = fs2,
            trace = trace st @ [EvWriteVendorFile (RootDir ctx) vf' None,
                                EvCopyPackage (Dir pkg) dst (Some err)]\<rparr>)\<rbrakk> \<Longrightarrow> thesis"
    and load_fails: "\<And>l vf' dst err fs1 fs2.
      \<lbrakk>l = path_Join [RootImportPath ctx, internalFolder, last (strings_Split p internalFolderSlash)];
       vf' = vf\<lparr>VendorFile.Package := VendorFile.Package vf @ [\<lparr>Vendor = p, Local = l\<rparr>]\<rparr>;
       dst = filepath_Join [RootGopath ctx, slashToFilepath env l];
       writeVendorFile env (RootDir ctx) vf' (files st) = (None, fs1);
       CopyPackage env (Dir pkg) dst fs1 = (None, fs2);
       LoadPackage env (ctx\<lparr>VendorFile := Some vf'\<rparr>) [p] fs2 = Inl err;
       CmdAdd_vendor env ctx pkg p st =
         (Failed err, \<lparr>files = fs2,
            trace = trace st @ [EvWriteVendorFile (RootDir ctx) vf' None,
                                EvCopyPackage (Dir pkg) dst None]\<rparr>)\<rbrakk> \<Longrightarrow> thesis"
    and rewrite_fails: "\<And>l vf' dst ctx2 fls err fs1 fs2 fs3.
      \<lbrakk>l = path_Join [RootImportPath ctx, internalFolder, last (strings_Split p internalFolderSlash)];
       vf' = vf\<lparr>VendorFile.Package := VendorFile.Package vf @ [\<lparr>Vendor = p, Local = l\<rparr>]\<rparr>;
       dst = filepath_Join [RootGopath ctx, slashToFilepath env l];
       writeVendorFile env (RootDir ctx) vf' (files st) = (None, fs1);
       CopyPackage env (Dir pkg) dst fs1 = (None, fs2);
       LoadPackage env (ctx\<lparr>VendorFile := Some vf'\<rparr>) [p] fs2 = Inr ctx2;
       fls = lookupFiles (fileImports ctx2) p;
       RewriteFiles env fls [\<lparr>From = p, To = l\<rparr>] fs2 = (Some err, fs3);
       CmdAdd_vendor env ctx pkg p st =
         (Failed err, \<lparr>files = fs3,
            trace = trace st @ [EvWriteVendorFile (RootDir ctx) vf' None,
                                EvCopyPackage (Dir pkg) dst None,
                                EvRewriteFiles fls [\<lparr>From = p, To = l\<rparr>] (Some err)]\<rparr>)\<rbrakk> \<Longrightarrow> thesis"
    and success: "\<And>l vf' dst ctx2 fls fs1 fs2 fs3.
      \<lbrakk>l = path_Join [RootImportPath ctx, internalFolder, last (strings_Split p internalFolderSlash)];
       vf' = vf\<lparr>VendorFile.Package := VendorFile.Package vf @ [\<lparr>Vendor = p, Local = l\<rparr>]\<rparr>;
       dst = filepath_Join [RootGopath ctx, slashToFilepath env l];
       writeVendorFile env (RootDir ctx) vf' (files st) = (None, fs1);
       CopyPackage env (Dir pkg) dst fs1 = (None, fs2);
       LoadPackage env (ctx\<lparr>VendorFile := Some vf'\<rparr>) [p] fs2 = Inr ctx2;
       fls = lookupFiles (fileImports ctx2) p;
       RewriteFiles env fls [\<lparr>From = p, To = l\<rparr>] fs2 = (None, fs3);
       CmdAdd_vendor env ctx pkg p st =
         (Ok (), \<lparr>files = fs3,
            trace = trace st @ [EvWriteVendorFile (RootDir ctx) vf' None,
                                EvCopyPackage (Dir pkg) dst None,
                                EvRewriteFiles fls [\<lparr>From = p, To = l\<rparr>] None]\<rparr>)\<rbrakk> \<Longrightarrow> thesis"
  shows thesis
proof -
  define l where "l = path_Join [RootImportPath ctx, internalFolder, last (strings_Split p internalFolderSlash)]"
  define vf' where "vf' = vf\<lparr>VendorFile.Package := VendorFile.Package vf @ [\<lparr>Vendor = p, Local = l\<rparr>]\<rparr>"
  define dst where "dst = filepath_Join [RootGopath ctx, slashToFilepath env l]"
  have ne: "strings_Split p internalFolderSlash \<noteq> []"
    by (rule strings_Split_not_Nil) (simp add: internalFolderSlash_eq)
  obtain e1 fs1 where w: "writeVendorFile env (RootDir ctx) vf' (files st) = (e1, fs1)"
    by (cases "writeVendorFile env (RootDir ctx) vf' (files st)")
  define st1 where "st1 = \<lparr>files = fs1, trace = trace st @ [EvWriteVendorFile (RootDir ctx) vf' e1]\<rparr>"
  have cw: "call_writeVendorFile env (RootDir ctx) vf' st = (e1, st1)"
    by (simp add: call_writeVendorFile_def w st1_def)
  have unfold1: "CmdAdd_vendor env ctx pkg p st =
     (case call_writeVendorFile env (RootDir ctx) vf' st of
                (Some err, st1) \<Rightarrow> (Failed err, st1)
              | (None, st1) \<Rightarrow>
                  (case call_CopyPackage env (Dir pkg) dst st1 of
                     (Some err, st2) \<Rightarrow> (Failed err, st2)
                   | (None, st2) \<Rightarrow>
                       (case LoadPackage env (ctx\<lparr>VendorFile := Some vf'\<rparr>) [p] (files st2) of
                          Inl err \<Rightarrow> (Failed err, st2)
                        | Inr ctx'' \<Rightarrow>
                            (case call_RewriteFiles env (lookupFiles (fileImports ctx'') p)
                                    [\<lparr>From = p, To = l\<rparr>] st2 of
                               (Some err, st3) \<Rightarrow> (Failed err, st3)
                             | (None, st3) \<Rightarrow> (Ok (), st3)))))"
    unfolding CmdAdd_vendor_def Let_def l_def vf'_def dst_def using ne vf
    by (simp del: path_Join.simps)
  show thesis
  proof (cases e1)
    case (Some err)
    have "CmdAdd_vendor env ctx pkg p st = (Failed err, st1)"
      using Some by (simp add: unfold1 cw)
    then show thesis
      using write_fails [OF l_def vf'_def] w Some by (simp add: st1_def)
  next
    case None
    note e1 = this
    obtain e2 fs2 where c: "CopyPackage env (Dir pkg) dst fs1 = (e2, fs2)"
      by (cases "CopyPackage env (Dir pkg) dst fs1")
    define st2 where "st2 = \<lparr>files = fs2, trace = trace st @ [EvWriteVendorFile (RootDir ctx) vf' None,
                                EvCopyPackage (Dir pkg) dst e2]\<rparr>"
    have cc: "call_CopyPackage env (Dir pkg) dst st1 = (e2, st2)"
      by (simp add: call_CopyPackage_def c st1_def st2_def e1)
    show thesis
    proof (cases e2)
      case (Some err)
      have "CmdAdd_vendor env ctx pkg p st = (Failed err, st2)"
        using Some e1 by (simp add: unfold1 cw cc)
      then show thesis
        using copy_fails [OF l_def vf'_def dst_def] w c Some e1 by (simp add: st2_def)
    next
      case None
      note e2 = this
      show thesis
      proof (cases "LoadPackage env (ctx\<lparr>VendorFile := Some vf'\<rparr>) [p] fs2")
        case (Inl err)
        have "CmdAdd_vendor env ctx pkg p st = (Failed err, st2)"
          using Inl e1 e2 by (simp add: unfold1 cw cc st2_def)
        then show thesis
          using load_fails [OF l_def vf'_def dst_def] w c Inl e1 e2 by (simp add: st2_def)
      next
        case (Inr ctx2)
        define fls where "fls = lookupFiles (fileImports ctx2) p"
        obtain e3 fs3 where r: "RewriteFiles env fls [\<lparr>From = p, To = l\<rparr>] fs2 = (e3, fs3)"
          by (cases "RewriteFiles env fls [\<lparr>From = p, To = l\<rparr>] fs2")
        define st3 where "st3 = \<lparr>files = fs3, trace = trace st @ [EvWriteVendorFile (RootDir ctx) vf' None,
                                EvCopyPackage (Dir pkg) dst None,
                                EvRewriteFiles fls [\<lparr>From = p, To = l\<rparr>] e3]\<rparr>"
        have cr: "call_RewriteFiles env fls [\<lparr>From = p, To = l\<rparr>] st2 = (e3, st3)"
          by (simp add: call_RewriteFiles_def r st2_def st3_def e2)
        have run: "CmdAdd_vendor env ctx pkg p st =
                (case e3 of Some err \<Rightarrow> (Failed err, st3) | None \<Rightarrow> (Ok (), st3))"
          using Inr e1 e2 cr [unfolded fls_def]
          by (simp add: unfold1 cw cc st2_def split: option.splits)
        show thesis
        proof (cases e3)
          case (Some err)
          then show thesis
            using rewrite_fails [OF l_def vf'_def dst_def _ _ _ fls_def] w c Inr r run e1 e2
            by (simp add: st3_def)
        next
          case None
          then show thesis
            using success [OF l_def vf'_def dst_def _ _ _ fls_def] w c Inr r run e1 e2
            by (simp add: st3_def)
        qed
      qed
    qed
  qed
qed

lemmas demo_defs =
  demoEnv_def demoState_def demoContext_def demoPackages_def demoEnvStatFails_def
  demoEnvCopyFails_def demoEnvEmptyLoad_def

lemma internalVendor_eq: "internalVendor = ''internal/vendor.json''"
  by (simp add: internalVendor_def internalFolder_def vendorFilename_def filepath_Join_def
      path_Clean_def)

subsection \<open>CmdAdd: the status check\<close>

text \<open>
  Claim C3. When the context and the package load and the status of the import path is
  not \<^verbatim>\<open>StatusExternal\<close>, \<^verbatim>\<open>CmdAdd\<close> fails with \<^verbatim>\<open>ErrVendorExists\<close> for
  \<^verbatim>\<open>StatusInternal\<close>, with \<^verbatim>\<open>ErrLocalPackage\<close> for \<^verbatim>\<open>StatusLocal\<close>, and with
  \<^verbatim>\<open>ErrNotInGOPATH\<close> naming the path for every other status. It returns the state it
  was given: the file system is unchanged and no write of the vendor file, copy or
  rewrite has been called. The import path is the argument after \<^verbatim>\<open>slashToImportPath\<close>.
\<close>
theorem CmdAdd_rejects_not_External:
  assumes "NewContextWD env (files st) = Inr ctx0"
    and "LoadPackage env ctx0 [slashToImportPath env importPath] (files st) = Inr ctx"
    and "lookupPackage (Context.Package ctx) (slashToImportPath env importPath) = Some pkg"
    and "Package.Status pkg \<noteq> StatusExternal"
  shows "CmdAdd env importPath st =
           (Failed (if Package.Status pkg = StatusInternal then ErrVendorExists
                    else if Package.Status pkg = StatusLocal then ErrLocalPackage
                    else ErrNotInGOPATH (slashToImportPath env importPath)), st)"
  using assms by (simp add: CmdAdd_def)

theorem CmdAdd_rejects_not_External_witness:
  "CmdAdd demoEnv ''mypkg/internal/bar'' demoState = (Failed ErrVendorExists, demoState)
   \<and> CmdAdd demoEnv ''mypkg/util'' demoState = (Failed ErrLocalPackage, demoState)
   \<and> CmdAdd demoEnv ''fmt'' demoState = (Failed (ErrNotInGOPATH ''fmt''), demoState)"
proof -
  let ?ctx = "demoContext\<lparr>Context.Package := demoPackages,
                fileImports := [(''example.com/foo'', [''/go/src/mypkg/main.go''])]\<rparr>"
  have c: "NewContextWD demoEnv (files demoState) = Inr demoContext"
    by (simp add: demoEnv_def)
  have l: "LoadPackage demoEnv demoContext [slashToImportPath demoEnv p] (files demoState) = Inr ?ctx"
    for p by (simp add: demoEnv_def)
  have s: "slashToImportPath demoEnv p = p" for p by (simp add: demoEnv_def)
  have p1: "lookupPackage (Context.Package ?ctx) (slashToImportPath demoEnv ''mypkg/internal/bar'')
      = Some \<lparr>ImportPath = ''mypkg/internal/bar'', Dir = ''/go/src/mypkg/internal/bar'',
               Status = StatusInternal\<rparr>"
    by (simp add: lookupPackage_def demoPackages_def s)
  have p2: "lookupPackage (Context.Package ?ctx) (slashToImportPath demoEnv ''mypkg/util'')
      = Some \<lparr>ImportPath = ''mypkg/util'', Dir = ''/go/src/mypkg/util'', Status = StatusLocal\<rparr>"
    by (simp add: lookupPackage_def demoPackages_def s)
  have p3: "lookupPackage (Context.Package ?ctx) (slashToImportPath demoEnv ''fmt'')
      = Some \<lparr>ImportPath = ''fmt'', Dir = ''/goroot/src/fmt'', Status = StatusStd\<rparr>"
    by (simp add: lookupPackage_def demoPackages_def s)
  show ?thesis
    using CmdAdd_rejects_not_External [OF c l p1] CmdAdd_rejects_not_External [OF c l p2]
      CmdAdd_rejects_not_External [OF c l p3]
    by (simp add: Status_defs s)
qed

lemma CmdAdd_vendor_nil_VendorFile:
  "VendorFile ctx = None \<Longrightarrow>
   CmdAdd_vendor env ctx pkg p st = (Panicked (NilPointerDereference ''ctx.VendorFile.Package''), st)"
  using strings_Split_not_Nil [of internalFolderSlash p]
  by (simp add: CmdAdd_vendor_def Let_def internalFolderSlash_eq del: path_Join.simps)

lemma CmdAdd_vendor_no_pkg_panic:
  "fst (CmdAdd_vendor env ctx pkg p st) \<noteq> Panicked (NilPointerDereference ''pkg.Status'')"
proof (cases "VendorFile ctx")
  case None
  then show ?thesis by (simp add: CmdAdd_vendor_nil_VendorFile)
next
  case (Some vf)
  then show ?thesis by (cases rule: CmdAdd_vendor_run [of ctx vf p env st pkg]) simp_all
qed

lemma lookupPackage_None:
  "lookupPackage m k = None \<longleftrightarrow> map_of m k = None \<or> map_of m k = Some None"
  by (simp add: lookupPackage_def split: option.splits)

text \<open>
  Claim C10. \<^verbatim>\<open>CmdAdd\<close> reads \<^verbatim>\<open>pkg.Status\<close> without testing the pointer that the map
  gave: it panics there exactly when the context and the package have loaded and the
  map of the loaded context has no entry for the import path, or a nil one. So the check
  is safe if and only if a successful load installs an entry for the focus path.
\<close>
theorem CmdAdd_status_check_nil:
  "fst (CmdAdd env importPath st) = Panicked (NilPointerDereference ''pkg.Status'')
   \<longleftrightarrow> (\<exists>ctx0 ctx.
          NewContextWD env (files st) = Inr ctx0
        \<and> LoadPackage env ctx0 [slashToImportPath env importPath] (files st) = Inr ctx
        \<and> (map_of (Context.Package ctx) (slashToImportPath env importPath) = None
           \<or> map_of (Context.Package ctx) (slashToImportPath env importPath) = Some None))"
proof (cases "NewContextWD env (files st)")
  case (Inl err)
  then show ?thesis by (simp add: CmdAdd_def)
next
  case (Inr ctx0)
  note c = this
  show ?thesis
  proof (cases "LoadPackage env ctx0 [slashToImportPath env importPath] (files st)")
    case (Inl err)
    then show ?thesis using c by (simp add: CmdAdd_def)
  next
    case (Inr ctx)
    show ?thesis
    proof (cases "lookupPackage (Context.Package ctx) (slashToImportPath env importPath)")
      case None
      then show ?thesis
        using c Inr lookupPackage_None [THEN iffD1, OF None] by (simp add: CmdAdd_def)
    next
      case (Some pkg)
      have no_entry: "\<not> (map_of (Context.Package ctx) (slashToImportPath env importPath) = None
           \<or> map_of (Context.Package ctx) (slashToImportPath env importPath) = Some None)"
        using Some lookupPackage_None [of "Context.Package ctx" "slashToImportPath env importPath"]
        by simp
      have lhs: "fst (CmdAdd env importPath st) \<noteq> Panicked (NilPointerDereference ''pkg.Status'')"
        using c Inr Some
          CmdAdd_vendor_no_pkg_panic [of env ctx pkg "slashToImportPath env importPath" st]
        by (simp add: CmdAdd_def Let_def)
      have rhs: "\<not> (\<exists>ctx0 ctx.
          NewContextWD env (files st) = Inr ctx0
        \<and> LoadPackage env ctx0 [slashToImportPath env importPath] (files st) = Inr ctx
        \<and> (map_of (Context.Package ctx) (slashToImportPath env importPath) = None
           \<or> map_of (Context.Package ctx) (slashToImportPath env importPath) = Some None))"
        using c Inr no_entry by auto
      show ?thesis using lhs rhs by blast
    qed
  qed
qed

theorem CmdAdd_status_check_nil_witness:
  "fst (CmdAdd demoEnvEmptyLoad ''example.com/foo'' demoState)
     = Panicked (NilPointerDereference ''pkg.Status'')
   \<and> fst (CmdAdd demoEnv ''mypkg/util'' demoState) \<noteq> Panicked (NilPointerDereference ''pkg.Status'')"
proof -
  have "\<exists>ctx0 ctx.
          NewContextWD demoEnvEmptyLoad (files demoState) = Inr ctx0
        \<and> LoadPackage demoEnvEmptyLoad ctx0 [slashToImportPath demoEnvEmptyLoad ''example.com/foo'']
             (files demoState) = Inr ctx
        \<and> (map_of (Context.Package ctx) (slashToImportPath demoEnvEmptyLoad ''example.com/foo'') = None
           \<or> map_of (Context.Package ctx) (slashToImportPath demoEnvEmptyLoad ''example.com/foo'')
               = Some None)"
    by (simp add: demoEnvEmptyLoad_def demoEnv_def)
  then have one: "fst (CmdAdd demoEnvEmptyLoad ''example.com/foo'' demoState)
     = Panicked (NilPointerDereference ''pkg.Status'')"
    by (rule CmdAdd_status_check_nil [THEN iffD2])
  have "\<not> (\<exists>ctx0 ctx.
          NewContextWD demoEnv (files demoState) = Inr ctx0
        \<and> LoadPackage demoEnv ctx0 [slashToImportPath demoEnv ''mypkg/util''] (files demoState) = Inr ctx
        \<and> (map_of (Context.Package ctx) (slashToImportPath demoEnv ''mypkg/util'') = None
           \<or> map_of (Context.Package ctx) (slashToImportPath demoEnv ''mypkg/util'') = Some None))"
    by (simp add: demoEnv_def demoPackages_def)
  then have two: "fst (CmdAdd demoEnv ''mypkg/util'' demoState)
     \<noteq> Panicked (NilPointerDereference ''pkg.Status'')"
    using CmdAdd_status_check_nil [of demoEnv "''mypkg/util''" demoState] by blast
  show ?thesis using one two by blast
qed

subsection \<open>CmdInit\<close>

lemma os_IsNotExist_iff: "os_IsNotExist e \<longleftrightarrow> (\<exists>p. e = Some (ErrNotExist p))"
  by (cases e rule: os_IsNotExist.cases) simp_all




subsection \<open>CmdList\<close>


lemma appendItems_total:
  "map snd m = map Some pkgs \<Longrightarrow> appendItems m acc = Ok (acc @ map itemOf pkgs)"
proof (induction m acc arbitrary: pkgs rule: appendItems.induct)
  case (1 li')
  then show ?case by simp
next
  case (2 k rest li')
  then show ?case by auto
next
  case (3 k pkg rest li')
  then obtain ps where "pkgs = pkg # ps" "map snd rest = map Some ps"
    by (cases pkgs) auto
  then show ?case using 3 by (simp add: itemOf_def)
qed





subsection \<open>Splitting and joining paths\<close>

lemma strings_Index_None_iff:
  "strings_Index s sep = None \<longleftrightarrow> \<not> (\<exists>a b. s = a @ sep @ b)"
proof (induction s)
  case Nil
  then show ?case by auto
next
  case (Cons c cs)
  show ?case
  proof (cases "prefix sep (c # cs)")
    case True
    then obtain b where "c # cs = sep @ b" by (auto simp: prefix_def)
    then have "\<exists>a b. c # cs = a @ sep @ b" by (metis append_Nil)
    then show ?thesis using True by simp
  next
    case False
    have "(\<exists>a b. c # cs = a @ sep @ b) \<longleftrightarrow> (\<exists>a b. cs = a @ sep @ b)"
    proof
      assume "\<exists>a b. c # cs = a @ sep @ b"
      then obtain a b where ab: "c # cs = a @ sep @ b" by blast
      have "a \<noteq> []"
      proof
        assume "a = []"
        then have "prefix sep (c # cs)" using ab by (simp add: prefix_def)
        then show False using False by simp
      qed
      then obtain a' where "a = c # a'" using ab by (cases a) auto
      then have "cs = a' @ sep @ b" using ab by simp
      then show "\<exists>a b. cs = a @ sep @ b" by blast
    next
      assume "\<exists>a b. cs = a @ sep @ b"
      then obtain a b where "cs = a @ sep @ b" by blast
      then have "c # cs = (c # a) @ sep @ b" by simp
      then show "\<exists>a b. c # cs = a @ sep @ b" by blast
    qed
    then show ?thesis using False Cons.IH by simp
  qed
qed

lemma strings_Index_Some:
  "strings_Index s sep = Some m \<Longrightarrow> s = take m s @ sep @ drop (m + length sep) s"
proof (induction s arbitrary: m)
  case Nil
  then show ?case by (simp split: if_splits)
next
  case (Cons c cs)
  show ?case
  proof (cases "prefix sep (c # cs)")
    case True
    then obtain b where b: "c # cs = sep @ b" by (auto simp: prefix_def)
    have "m = 0" using Cons.prems True by simp
    moreover have "drop (length sep) (c # cs) = b" by (simp add: b)
    ultimately show ?thesis using b by simp
  next
    case False
    then obtain k where k: "strings_Index cs sep = Some k" "m = Suc k"
      using Cons.prems by auto
    then show ?thesis using Cons.IH [OF k(1)] by simp
  qed
qed

lemma strings_Split_no_sep:
  "sep \<noteq> [] \<Longrightarrow> strings_Index s sep = None \<Longrightarrow> strings_Split s sep = [s]"
  by (subst strings_Split.simps) simp

lemma strings_Split_last:
  assumes "sep \<noteq> []"
  shows "strings_Index (last (strings_Split s sep)) sep = None
         \<and> (last (strings_Split s sep) = s \<or> (\<exists>a. s = a @ sep @ last (strings_Split s sep)))"
  using assms
proof (induction s sep rule: strings_Split.induct)
  case (1 s sep)
  show ?case
  proof (cases "strings_Index s sep")
    case None
    then show ?thesis using "1.prems" by (simp add: strings_Split_no_sep)
  next
    case (Some m)
    let ?rest = "drop (m + length sep) s"
    have split: "strings_Split s sep = take m s # strings_Split ?rest sep"
      using Some "1.prems" by (subst strings_Split.simps) simp
    have ne: "strings_Split ?rest sep \<noteq> []"
      using "1.prems" by (subst strings_Split.simps) (simp split: option.splits)
    have last_eq: "last (strings_Split s sep) = last (strings_Split ?rest sep)"
      using split ne by simp
    have IH: "strings_Index (last (strings_Split ?rest sep)) sep = None
         \<and> (last (strings_Split ?rest sep) = ?rest
            \<or> (\<exists>a. ?rest = a @ sep @ last (strings_Split ?rest sep)))"
      using "1.IH" [OF "1.prems" Some "1.prems"] .
    have s: "s = take m s @ sep @ ?rest" by (rule strings_Index_Some [OF Some])
    have "\<exists>a. s = a @ sep @ last (strings_Split ?rest sep)"
    proof (cases "last (strings_Split ?rest sep) = ?rest")
      case True
      then show ?thesis using s by metis
    next
      case False
      then obtain a where "?rest = a @ sep @ last (strings_Split ?rest sep)"
        using IH by blast
      then have "s = (take m s @ sep @ a) @ sep @ last (strings_Split ?rest sep)"
        using s by (metis append.assoc)
      then show ?thesis by blast
    qed
    then show ?thesis using IH last_eq by simp
  qed
qed

lemma strings_Join_Cons:
  "es \<noteq> [] \<Longrightarrow> strings_Join (e # es) sep = e @ sep @ strings_Join es sep"
  by (cases es) simp_all

lemma strings_Join_append:
  "xs \<noteq> [] \<Longrightarrow> ys \<noteq> [] \<Longrightarrow>
   strings_Join (xs @ ys) sep = strings_Join xs sep @ sep @ strings_Join ys sep"
proof (induction xs)
  case Nil
  then show ?case by simp
next
  case (Cons x xs)
  show ?case
  proof (cases "xs = []")
    case True
    then show ?thesis using Cons.prems by (simp add: strings_Join_Cons)
  next
    case False
    then show ?thesis using Cons by (simp add: strings_Join_Cons)
  qed
qed

lemma Clean_loop_slash:
  "Clean_loop rooted (CHR ''/'' # cs) out dotdot = Clean_loop rooted cs out dotdot"
  by simp

lemma Clean_loop_elem:
  assumes e: "cleanElem e" and rest: "rest = [] \<or> hd rest = CHR ''/''"
  shows "Clean_loop False (e @ rest) out dotdot =
         Clean_loop False rest ((if out \<noteq> [] then out @ ''/'' else out) @ e) dotdot"
proof -
  obtain c cs where ecs: "e = c # cs" using e by (cases e) (auto simp: cleanElem_def)
  have c: "c \<noteq> CHR ''/''" and cs: "CHR ''/'' \<notin> set cs"
    using e by (auto simp: cleanElem_def ecs)
  have dot: "\<not> (c = CHR ''.'' \<and> (cs @ rest = [] \<or> hd (cs @ rest) = CHR ''/''))"
  proof
    assume a: "c = CHR ''.'' \<and> (cs @ rest = [] \<or> hd (cs @ rest) = CHR ''/'')"
    have ne: "cs \<noteq> []" using e a by (auto simp: cleanElem_def ecs)
    have "hd (cs @ rest) = hd cs" using ne by simp
    then have "hd cs = CHR ''/''" using a ne by simp
    moreover have "hd cs \<in> set cs" using ne by simp
    ultimately show False using cs by simp
  qed
  have dotdot: "\<not> (c = CHR ''.'' \<and> hd (cs @ rest) = CHR ''.''
                   \<and> (tl (cs @ rest) = [] \<or> hd (tl (cs @ rest)) = CHR ''/''))"
  proof
    assume a: "c = CHR ''.'' \<and> hd (cs @ rest) = CHR ''.''
                   \<and> (tl (cs @ rest) = [] \<or> hd (tl (cs @ rest)) = CHR ''/'')"
    have ne: "cs \<noteq> []" using e a by (auto simp: cleanElem_def ecs)
    then obtain d ds where ds: "cs = d # ds" by (cases cs) auto
    have "d = CHR ''.''" using a ds by simp
    then have dne: "ds \<noteq> []" using e a ds by (auto simp: cleanElem_def ecs)
    have "tl (cs @ rest) = ds @ rest" using ds by simp
    then have "hd ds = CHR ''/''" using a dne by simp
    moreover have "hd ds \<in> set cs" using dne ds by simp
    ultimately show False using cs by simp
  qed
  let ?P = "\<lambda>x. x \<noteq> CHR ''/''"
  have P: "\<And>x. x \<in> set cs \<Longrightarrow> ?P x" using cs by auto
  have "takeWhile ?P rest = []" using rest by (cases rest) auto
  moreover have "takeWhile ?P (cs @ rest) = cs @ takeWhile ?P rest"
    using P by (rule takeWhile_append2)
  ultimately have tw: "takeWhile ?P (cs @ rest) = cs" by simp
  have "dropWhile ?P rest = rest" using rest by (cases rest) auto
  moreover have "dropWhile ?P (cs @ rest) = dropWhile ?P rest"
    using P by (rule dropWhile_append2)
  ultimately have dw: "dropWhile ?P (cs @ rest) = rest" by simp
  have "Clean_loop False (c # (cs @ rest)) out dotdot =
        Clean_loop False (dropWhile ?P (cs @ rest))
          ((if False \<and> length out \<noteq> 1 \<or> \<not> False \<and> length out \<noteq> 0
            then out @ ''/'' else out) @ c # takeWhile ?P (cs @ rest))
          dotdot"
    by (subst Clean_loop.simps(2)) (simp only: c dot dotdot if_False)
  then show ?thesis unfolding ecs tw dw by (simp del: Clean_loop.simps)
qed

lemma Clean_loop_join:
  "cleanPath es \<Longrightarrow>
   Clean_loop False (strings_Join es ''/'') out dotdot =
     (if out \<noteq> [] then out @ ''/'' else out) @ strings_Join es ''/''"
proof (induction es arbitrary: out)
  case Nil
  then show ?case by (simp add: cleanPath_def)
next
  case (Cons e es)
  have e: "cleanElem e" using Cons.prems by (simp add: cleanPath_def)
  show ?case
  proof (cases "es = []")
    case True
    have "Clean_loop False (e @ []) out dotdot =
          Clean_loop False [] ((if out \<noteq> [] then out @ ''/'' else out) @ e) dotdot"
      by (rule Clean_loop_elem [OF e]) simp
    then show ?thesis using True by simp
  next
    case False
    then have es: "cleanPath es" using Cons.prems by (simp add: cleanPath_def)
    let ?out = "(if out \<noteq> [] then out @ ''/'' else out) @ e"
    have ne: "?out \<noteq> []" using e by (simp add: cleanElem_def)
    have "Clean_loop False (e @ (CHR ''/'' # strings_Join es ''/'')) out dotdot =
          Clean_loop False (CHR ''/'' # strings_Join es ''/'') ?out dotdot"
      by (rule Clean_loop_elem [OF e]) simp
    also have "\<dots> = Clean_loop False (strings_Join es ''/'') ?out dotdot"
      by (rule Clean_loop_slash)
    also have "\<dots> = (?out @ ''/'') @ strings_Join es ''/''"
      using Cons.IH [OF es, of ?out] ne by simp
    finally show ?thesis using False by (simp add: strings_Join_Cons)
  qed
qed

lemma strings_Join_clean_hd:
  assumes "cleanPath es"
  shows "strings_Join es ''/'' \<noteq> [] \<and> hd (strings_Join es ''/'') \<noteq> CHR ''/''"
proof -
  obtain e rest where es: "es = e # rest" using assms by (cases es) (simp_all add: cleanPath_def)
  have ce: "cleanElem e" using assms by (simp add: cleanPath_def es)
  have e1: "e \<noteq> []" using ce by (simp add: cleanElem_def)
  have "hd e \<in> set e" using e1 by simp
  moreover have "CHR ''/'' \<notin> set e" using ce by (simp add: cleanElem_def)
  ultimately have e2: "hd e \<noteq> CHR ''/''" by metis
  have "strings_Join es ''/'' = e \<or> strings_Join es ''/'' = e @ ''/'' @ strings_Join rest ''/''"
    by (cases rest) (simp_all add: es)
  then show ?thesis
  proof
    assume "strings_Join es ''/'' = e"
    then show ?thesis using e1 e2 by simp
  next
    assume "strings_Join es ''/'' = e @ ''/'' @ strings_Join rest ''/''"
    then show ?thesis using e1 e2 by simp
  qed
qed

lemma path_Clean_join:
  assumes "cleanPath es"
  shows "path_Clean (strings_Join es ''/'') = strings_Join es ''/''"
proof -
  let ?p = "strings_Join es ''/''"
  have ne: "?p \<noteq> []" and hd: "hd ?p \<noteq> CHR ''/''"
    using strings_Join_clean_hd [OF assms] by simp_all
  have loop: "Clean_loop False ?p [] 0 = ?p"
    using Clean_loop_join [OF assms, of "[]" 0] by simp
  have "path_Clean ?p =
        (let out = Clean_loop False ?p [] 0 in if out = [] then ''.'' else out)"
    unfolding path_Clean_def using ne hd by (simp only: Let_def if_False)
  then show ?thesis unfolding loop using ne by (simp only: Let_def if_False)
qed

lemma cleanElem_internal: "cleanElem internalFolder"
  by (simp add: cleanElem_def internalFolder_def)

lemma path_Join_clean:
  assumes rs: "cleanPath rs" and ss: "cleanPath ss"
  shows "path_Join [strings_Join rs ''/'', internalFolder, strings_Join ss ''/'']
         = strings_Join rs ''/'' @ ''/internal/'' @ strings_Join ss ''/''"
proof -
  have all: "cleanPath (rs @ internalFolder # ss)"
    using rs ss cleanElem_internal by (auto simp: cleanPath_def)
  have j: "strings_Join (rs @ internalFolder # ss) ''/''
           = strings_Join rs ''/'' @ ''/'' @ internalFolder @ ''/'' @ strings_Join ss ''/''"
    using rs ss by (simp add: strings_Join_append strings_Join_Cons cleanPath_def)
  have "strings_Join rs ''/'' \<noteq> []"
    using strings_Join_clean_hd [OF rs] by simp
  then have "path_Join [strings_Join rs ''/'', internalFolder, strings_Join ss ''/'']
        = path_Clean (strings_Join rs ''/'' @ ''/'' @ internalFolder @ ''/'' @ strings_Join ss ''/'')"
    by simp
  also have "\<dots> = strings_Join rs ''/'' @ ''/'' @ internalFolder @ ''/'' @ strings_Join ss ''/''"
    using path_Clean_join [OF all] by (simp only: j)
  finally show ?thesis by (simp add: internalFolder_def)
qed

subsection \<open>CmdAdd: the vendor file and the trace\<close>

lemma CmdAdd_External:
  assumes "NewContextWD env (files st) = Inr ctx0"
    and "LoadPackage env ctx0 [slashToImportPath env importPath] (files st) = Inr ctx"
    and "lookupPackage (Context.Package ctx) (slashToImportPath env importPath) = Some pkg"
    and "Package.Status pkg = StatusExternal"
  shows "CmdAdd env importPath st = CmdAdd_vendor env ctx pkg (slashToImportPath env importPath) st"
  using assms by (simp add: CmdAdd_def Let_def)

lemma CmdAdd_vendor_trace:
  assumes "VendorFile ctx = Some vf"
  shows "\<exists>e rest.
           trace (snd (CmdAdd_vendor env ctx pkg p st)) =
             trace st @
             EvWriteVendorFile (RootDir ctx)
               (vf\<lparr>VendorFile.Package := VendorFile.Package vf @
                    [\<lparr>Vendor = p,
                      Local = path_Join [RootImportPath ctx, internalFolder,
                                last (strings_Split p internalFolderSlash)]\<rparr>]\<rparr>) e # rest
         \<and> (\<forall>ev\<in>set rest. \<not> isWriteVendorFile ev)"
  using assms
proof (cases rule: CmdAdd_vendor_run [where env = env and st = st and pkg = pkg and p = p])
  case (write_fails l vf' err fs1)
  then show ?thesis by (simp del: path_Join.simps)
next
  case (copy_fails l vf' dst err fs1 fs2)
  then show ?thesis by (simp del: path_Join.simps)
next
  case (load_fails l vf' dst err fs1 fs2)
  then show ?thesis by (simp del: path_Join.simps)
next
  case (rewrite_fails l vf' dst ctx2 fls err fs1 fs2 fs3)
  then show ?thesis by (simp del: path_Join.simps)
next
  case (success l vf' dst ctx2 fls fs1 fs2 fs3)
  then show ?thesis by (simp del: path_Join.simps)
qed

lemma strings_Split_suffix:
  fixes p :: string
  defines "suf \<equiv> last (strings_Split p internalFolderSlash)"
  shows "strings_Index suf internalFolderSlash = None
       \<and> (strings_Index p internalFolderSlash = None \<longrightarrow> suf = p)
       \<and> (strings_Index p internalFolderSlash \<noteq> None \<longrightarrow> (\<exists>a. p = a @ internalFolderSlash @ suf))"
proof -
  have ne: "internalFolderSlash \<noteq> []" by (simp add: internalFolderSlash_eq)
  have a: "strings_Index suf internalFolderSlash = None"
    and b: "suf = p \<or> (\<exists>a. p = a @ internalFolderSlash @ suf)"
    unfolding suf_def using strings_Split_last [OF ne, of p] by blast+
  have c: "strings_Index p internalFolderSlash = None \<longrightarrow> suf = p"
    unfolding suf_def using strings_Split_no_sep [OF ne, of p] by simp
  have d: "strings_Index p internalFolderSlash \<noteq> None \<longrightarrow> (\<exists>a. p = a @ internalFolderSlash @ suf)"
  proof
    assume n: "strings_Index p internalFolderSlash \<noteq> None"
    have "suf \<noteq> p" using a n by auto
    then show "\<exists>a. p = a @ internalFolderSlash @ suf" using b by blast
  qed
  show ?thesis using a c d by blast
qed

end
